theory Spec2Isabelle
  imports Main
begin

section \<open>The Wize provider registry (WizeService)\<close>

subsection \<open>Providers, errors, completions\<close>

text \<open>
  A provider is a JavaScript object. The service compares providers with
  \<^verbatim>\<open>indexOf\<close> and \<^verbatim>\<open>===\<close>, that is by object identity, and reads one field,
  \<^verbatim>\<open>provider.id\<close>. A provider value is the object's reference together with the
  identifier the object carries. Two registered objects may carry the same identifier.
\<close>

datatype IWizeProvider = IWizeProvider (ref: nat) (provider_id: string)

text \<open>\<^verbatim>\<open>new Error(message)\<close>; the two messages the setter throws are named as in the
  specification.\<close>

datatype error = Error string

definition InvalidProvider :: error where
  "InvalidProvider = Error ''invalid provider''"

definition UnregisteredProvider :: error where
  "UnregisteredProvider = Error ''Provider not registered''"

text \<open>A call either returns or throws. A throw does not roll the fields back, so every
  operation yields its completion together with the state it leaves behind.\<close>

datatype 'a completion = Normal 'a | Throw error

subsection \<open>State\<close>

text \<open>
  One entry per call of \<^verbatim>\<open>_onDidChangeProvider.fire\<close>: the value handed to the
  listeners, and the values of \<^verbatim>\<open>activeProvider\<close> and of the context key
  \<^verbatim>\<open>wize.provider\<close> at the moment \<^verbatim>\<open>fire\<close> is called, before any listener has run.
\<close>

record dispatch =
  payload :: "IWizeProvider option"
  seen_activeProvider :: "IWizeProvider option"
  seen_contextKey :: "string option"

text \<open>The fields of the class; \<^verbatim>\<open>undefined\<close> is \<open>None\<close>. The private fields
  \<^verbatim>\<open>_activeProvider\<close>, \<^verbatim>\<open>_providers\<close> and \<^verbatim>\<open>_onDidChangeProvider\<close> carry the prefix
  \<open>priv\<close>; the last one is the sequence of dispatches made so far.\<close>

record WizeService =
  activeProviderContextKey :: "string option"
  priv_activeProvider :: "IWizeProvider option"
  priv_providers :: "IWizeProvider list"
  priv_onDidChangeProvider :: "dispatch list"

text \<open>The constructor: the context key is created with \<^verbatim>\<open>void 0\<close>, no provider is
  active, the array is empty and nothing has been fired.\<close>

definition WizeService_new :: WizeService where
  "WizeService_new =
     \<lparr>activeProviderContextKey = None, priv_activeProvider = None,
      priv_providers = [], priv_onDidChangeProvider = []\<rparr>"

subsection \<open>Array primitives\<close>

text \<open>\<^verbatim>\<open>Array.prototype.indexOf\<close>: the first index holding the element, or \<open>-1\<close>.\<close>

fun indexOf :: "'a list \<Rightarrow> 'a \<Rightarrow> int" where
  "indexOf [] x = - 1"
| "indexOf (y # ys) x =
     (if y = x then 0
      else (let i = indexOf ys x in if i < 0 then - 1 else i + 1))"

text \<open>\<^verbatim>\<open>xs.splice(start, deleteCount)\<close> for \<open>0 \<le> start\<close>: the array without the
  \<open>deleteCount\<close> elements from \<open>start\<close> on.\<close>

definition array_splice :: "'a list \<Rightarrow> int \<Rightarrow> nat \<Rightarrow> 'a list" where
  "array_splice xs start deleteCount =
     take (nat start) xs @ drop (nat start + deleteCount) xs"

text \<open>\<^verbatim>\<open>xs[i]\<close>: reading past the end of a JavaScript array gives \<^verbatim>\<open>undefined\<close>.\<close>

definition element_at :: "'a list \<Rightarrow> nat \<Rightarrow> 'a option" where
  "element_at xs i = (if i < length xs then Some (xs ! i) else None)"

subsection \<open>Operations\<close>

text \<open>Modelled from the spec: \<^verbatim>\<open>Emitter.fire\<close> of \<^verbatim>\<open>vs/base/common/event\<close>, which
  is not among the sources. Delivery is synchronous: the listeners run inline during
  the call, with the fired value, before \<^verbatim>\<open>fire\<close> returns. The dispatch is
  recorded with the fields as they stand when \<^verbatim>\<open>fire\<close> is called.\<close>

definition fire :: "IWizeProvider option \<Rightarrow> WizeService \<Rightarrow> WizeService" where
  "fire event s =
     s\<lparr>priv_onDidChangeProvider := priv_onDidChangeProvider s @
         [\<lparr>payload = event,
           seen_activeProvider = priv_activeProvider s,
           seen_contextKey = activeProviderContextKey s\<rparr>]\<rparr>"

text \<open>\<^verbatim>\<open>get activeProvider()\<close> and \<^verbatim>\<open>get providers()\<close> (a copy of the array).\<close>

definition get_activeProvider :: "WizeService \<Rightarrow> IWizeProvider option" where
  "get_activeProvider s = priv_activeProvider s"

definition get_providers :: "WizeService \<Rightarrow> IWizeProvider list" where
  "get_providers s = priv_providers s"

text \<open>\<^verbatim>\<open>set activeProvider(provider)\<close>. An object is truthy, so \<^verbatim>\<open>!provider\<close>
  holds exactly for \<open>None\<close>. The three statements after the guards run in the order of
  the source: the field, the context key, the emitter.\<close>

definition set_activeProvider ::
  "IWizeProvider option \<Rightarrow> WizeService \<Rightarrow> unit completion \<times> WizeService" where
  "set_activeProvider provider s =
     (case provider of
        None \<Rightarrow> (Throw (Error ''invalid provider''), s)
      | Some p \<Rightarrow>
          if indexOf (priv_providers s) p = - 1
          then (Throw (Error ''Provider not registered''), s)
          else
            (let s1 = s\<lparr>priv_activeProvider := provider\<rparr>;
                 s2 = s1\<lparr>activeProviderContextKey := map_option provider_id provider\<rparr>
             in (Normal (), fire provider s2)))"

text \<open>The function handed to \<^verbatim>\<open>toDisposable\<close> in \<^verbatim>\<open>registerWizeProvider\<close>; it
  closes over \<^verbatim>\<open>provider\<close>. The assignment \<^verbatim>\<open>this.activeProvider = this._providers[0]\<close>
  goes through the setter, and a throw of the setter leaves this function.\<close>

definition unregister ::
  "IWizeProvider \<Rightarrow> WizeService \<Rightarrow> unit completion \<times> WizeService" where
  "unregister provider s =
     (let index = indexOf (priv_providers s) provider in
      if index < 0 then (Normal (), s)
      else
        (let s1 = s\<lparr>priv_providers := array_splice (priv_providers s) index 1\<rparr> in
         if get_activeProvider s1 = Some provider
         then set_activeProvider (element_at (priv_providers s1) 0) s1
         else (Normal (), s1)))"

text \<open>An \<^verbatim>\<open>IDisposable\<close> is its \<^verbatim>\<open>dispose\<close> function.\<close>

type_synonym IDisposable = "WizeService \<Rightarrow> unit completion \<times> WizeService"

definition toDisposable :: "IDisposable \<Rightarrow> IDisposable" where
  "toDisposable fn = fn"

definition dispose :: "IDisposable \<Rightarrow> WizeService \<Rightarrow> unit completion \<times> WizeService" where
  "dispose d s = d s"

text \<open>\<^verbatim>\<open>registerWizeProvider(provider)\<close>: the provider goes to the front; when the array
  then has one element the setter is called; the result is the release handle.\<close>

definition registerWizeProvider ::
  "IWizeProvider \<Rightarrow> WizeService \<Rightarrow> IDisposable completion \<times> WizeService" where
  "registerWizeProvider provider s =
     (let s1 = s\<lparr>priv_providers := provider # priv_providers s\<rparr> in
      if length (priv_providers s1) = 1
      then (case set_activeProvider (Some provider) s1 of
              (Throw e, s2) \<Rightarrow> (Throw e, s2)
            | (Normal u, s2) \<Rightarrow> (Normal (toDisposable (unregister provider)), s2))
      else (Normal (toDisposable (unregister provider)), s1))"

text \<open>The dispatches an operation added: those of \<open>s'\<close> beyond the ones of \<open>s\<close>.\<close>

definition fired_since :: "WizeService \<Rightarrow> WizeService \<Rightarrow> dispatch list" where
  "fired_since s s' =
     drop (length (priv_onDidChangeProvider s)) (priv_onDidChangeProvider s')"

subsection \<open>Sequences of calls\<close>

text \<open>Registering a sequence of providers, one call after the other; a throw would end
  the sequence there.\<close>

fun registerAll :: "IWizeProvider list \<Rightarrow> WizeService \<Rightarrow> unit completion \<times> WizeService" where
  "registerAll [] s = (Normal (), s)"
| "registerAll (p # ps) s =
     (case registerWizeProvider p s of
        (Throw e, s') \<Rightarrow> (Throw e, s')
      | (Normal h, s') \<Rightarrow> registerAll ps s')"

text \<open>Invoking one release handle \<open>n\<close> times in a row; a throw ends the row.\<close>

fun dispose_times :: "nat \<Rightarrow> IDisposable \<Rightarrow> WizeService \<Rightarrow> unit completion \<times> WizeService" where
  "dispose_times 0 d s = (Normal (), s)"
| "dispose_times (Suc n) d s =
     (case dispose d s of
        (Throw e, s') \<Rightarrow> (Throw e, s')
      | (Normal u, s') \<Rightarrow> dispose_times n d s')"

text \<open>The three entry points that change the service, as a client calls them:
  registering, assigning \<^verbatim>\<open>activeProvider\<close>, and invoking the handle that the
  registration of a provider returned. \<open>perform\<close> gives the state a call leaves behind,
  whether it returns or throws (a client may catch the error and go on).\<close>

datatype operation =
    Register IWizeProvider
  | SetActive "IWizeProvider option"
  | Release IWizeProvider

fun perform :: "operation \<Rightarrow> WizeService \<Rightarrow> WizeService" where
  "perform (Register p) s = snd (registerWizeProvider p s)"
| "perform (SetActive provider) s = snd (set_activeProvider provider s)"
| "perform (Release p) s = snd (dispose (toDisposable (unregister p)) s)"

text \<open>Whether the call returns.\<close>

fun returns :: "operation \<Rightarrow> WizeService \<Rightarrow> bool" where
  "returns (Register p) s = (case fst (registerWizeProvider p s) of Normal h \<Rightarrow> True | Throw e \<Rightarrow> False)"
| "returns (SetActive provider) s = (fst (set_activeProvider provider s) = Normal ())"
| "returns (Release p) s = (fst (dispose (toDisposable (unregister p)) s) = Normal ())"

subsection \<open>Properties of a state\<close>

text \<open>The two invariants the specification gives for the registry state: a set active
  provider is one of the registered ones, and an empty registry has none.\<close>

definition registry_invariant :: "WizeService \<Rightarrow> bool" where
  "registry_invariant s \<longleftrightarrow>
     (case get_activeProvider s of
        None \<Rightarrow> True
      | Some p \<Rightarrow> p \<in> set (get_providers s)) \<and>
     (if get_providers s = [] then get_activeProvider s = None else True)"

text \<open>A dispatch made when the service already showed the fired value.\<close>

definition dispatch_consistent :: "dispatch \<Rightarrow> bool" where
  "dispatch_consistent d \<longleftrightarrow>
     seen_activeProvider d = payload d \<and>
     seen_contextKey d = map_option provider_id (payload d)"

subsection \<open>Subscribers\<close>

text \<open>Modelled from the spec: a subscriber of \<^verbatim>\<open>onDidChangeProvider\<close>. The emitter and
  its subscribers are not among the sources. A subscriber is called with the fired value,
  may read the service, and may call the service from inside its callback: it yields the
  calls it makes. A call that throws leaves the state it leaves; the subscriber goes on.\<close>

type_synonym listener = "IWizeProvider option \<Rightarrow> WizeService \<Rightarrow> operation list"

text \<open>What one subscriber got and read at the start of one callback: its position in
  subscription order, the fired value, \<^verbatim>\<open>activeProvider\<close> and the context key.\<close>

record observation =
  subscriber :: nat
  received :: "IWizeProvider option"
  read_activeProvider :: "IWizeProvider option"
  read_contextKey :: "string option"

text \<open>Modelled from the spec: delivery by \<^verbatim>\<open>Emitter.fire\<close>. Observers are invoked inline
  during the call that triggers the transition, in subscription order. What is still to
  run is a stack of tasks: a call of the service, or the callback of subscriber \<open>i\<close>
  with a fired value. In each of the three operations \<^verbatim>\<open>fire\<close> is the last effect, so
  a call is performed and the callbacks of its dispatch are put on top of the stack,
  ahead of everything that was pending; a callback records its observation and puts the
  calls the subscriber makes on top. A call made by a subscriber is thus completed, with
  the callbacks it triggers, before the next subscriber of the outer dispatch runs.\<close>

datatype task = Call operation | Notify nat "IWizeProvider option"

definition notifications :: "nat \<Rightarrow> dispatch list \<Rightarrow> task list" where
  "notifications n ds = concat (map (\<lambda>d. map (\<lambda>i. Notify i (payload d)) [0..<n]) ds)"

definition calls_of ::
  "listener list \<Rightarrow> nat \<Rightarrow> IWizeProvider option \<Rightarrow> WizeService \<Rightarrow> operation list" where
  "calls_of ls i v s = (if i < length ls then (ls ! i) v s else [])"

fun deliver ::
  "listener list \<Rightarrow> task \<Rightarrow> WizeService \<times> observation list \<Rightarrow>
   task list \<times> WizeService \<times> observation list" where
  "deliver ls (Call op) (s, obs) =
     (notifications (length ls) (fired_since s (perform op s)), perform op s, obs)"
| "deliver ls (Notify i v) (s, obs) =
     (map Call (calls_of ls i v s), s,
      obs @ [\<lparr>subscriber = i, received = v,
               read_activeProvider = get_activeProvider s,
               read_contextKey = activeProviderContextKey s\<rparr>])"

text \<open>Subscribers that keep calling the service from their callbacks never let the outer
  call return; \<open>run\<close> takes fuel, one unit per task, and gives \<open>None\<close> when it runs out.\<close>

fun run ::
  "nat \<Rightarrow> listener list \<Rightarrow> task list \<Rightarrow> WizeService \<times> observation list \<Rightarrow>
   (WizeService \<times> observation list) option" where
  "run fuel ls [] c = Some c"
| "run 0 ls (t # ts) c = None"
| "run (Suc fuel) ls (t # ts) c =
     (case deliver ls t c of (new, c') \<Rightarrow> run fuel ls (new @ ts) c')"



text \<open>The service shows the value \<open>v\<close>; an observation agrees with the fired value.\<close>

definition consistent_with :: "WizeService \<Rightarrow> IWizeProvider option \<Rightarrow> bool" where
  "consistent_with s v \<longleftrightarrow>
     get_activeProvider s = v \<and> activeProviderContextKey s = map_option provider_id v"


text \<open>Subscriber \<open>i\<close> never calls the service from its callback; all subscribers before
  position \<open>i\<close> are such.\<close>

definition silent :: "listener list \<Rightarrow> nat \<Rightarrow> bool" where
  "silent ls i \<longleftrightarrow> (\<forall>v s. calls_of ls i v s = [])"




text \<open>Fuel that suffices for a task when every subscriber is silent.\<close>

fun cost :: "nat \<Rightarrow> task \<Rightarrow> nat" where
  "cost n (Call op) = Suc n"
| "cost n (Notify i v) = 1"

section \<open>The preview toggle (WizePreview)\<close>

text \<open>\<^verbatim>\<open>window.localStorage\<close>: \<^verbatim>\<open>getItem\<close> gives \<^verbatim>\<open>null\<close> (\<open>None\<close>) for a key that is
  not stored.\<close>

type_synonym Storage = "string \<rightharpoonup> string"

definition getItem :: "Storage \<Rightarrow> string \<Rightarrow> string option" where
  "getItem storage key = storage key"

definition setItem :: "Storage \<Rightarrow> string \<Rightarrow> string \<Rightarrow> Storage" where
  "setItem storage key v = storage(key \<mapsto> v)"

text \<open>The storage and the static field \<^verbatim>\<open>WizePreview._enabled\<close>.\<close>

record WizePreview =
  localStorage :: Storage
  priv_enabled :: bool

text \<open>Loading the class evaluates the initialiser of \<^verbatim>\<open>_enabled\<close> once.\<close>

definition WizePreview_load :: "Storage \<Rightarrow> WizePreview" where
  "WizePreview_load storage =
     \<lparr>localStorage = storage,
      priv_enabled = (getItem storage ''enablePreviewWize'' = Some ''true'')\<rparr>"

definition get_enabled :: "WizePreview \<Rightarrow> bool" where
  "get_enabled w = priv_enabled w"

definition set_enabled :: "bool \<Rightarrow> WizePreview \<Rightarrow> WizePreview" where
  "set_enabled enabled w =
     w\<lparr>localStorage :=
         setItem (localStorage w) ''enablePreviewWize''
           (if enabled then ''true'' else ''false'')\<rparr>"

section \<open>Array primitives: facts\<close>

lemma indexOf_lower: "- 1 \<le> indexOf xs x"
  by (induction xs) (auto simp: Let_def)

lemma indexOf_absent: "indexOf xs x < 0 \<longleftrightarrow> x \<notin> set xs"
  by (induction xs) (auto simp: Let_def)

lemma indexOf_minus_one: "indexOf xs x = - 1 \<longleftrightarrow> x \<notin> set xs"
  using indexOf_lower [of xs x] indexOf_absent [of xs x] by linarith

text \<open>Removing the element at the index \<^verbatim>\<open>indexOf\<close> found removes the first occurrence.\<close>

lemma splice_indexOf [simp]:
  "x \<in> set xs \<Longrightarrow> array_splice xs (indexOf xs x) 1 = remove1 x xs"
proof (induction xs)
  case Nil
  then show ?case by simp
next
  case (Cons y ys)
  show ?case
  proof (cases "y = x")
    case True
    then show ?thesis by (simp add: array_splice_def)
  next
    case False
    with Cons.prems have mem: "x \<in> set ys" by simp
    then have nonneg: "0 \<le> indexOf ys x" using indexOf_absent [of ys x] by simp
    then have "nat (indexOf ys x + 1) = Suc (nat (indexOf ys x))" by simp
    with False nonneg Cons.IH [OF mem] show ?thesis
      by (simp add: array_splice_def Let_def)
  qed
qed

lemma element_at_0: "element_at xs 0 = (case xs of [] \<Rightarrow> None | y # ys \<Rightarrow> Some y)"
  by (cases xs) (simp_all add: element_at_def)

section \<open>The operations, case by case\<close>

lemma set_activeProvider_None: "set_activeProvider None s = (Throw InvalidProvider, s)"
  by (simp add: set_activeProvider_def InvalidProvider_def)

lemma set_activeProvider_unregistered:
  "p \<notin> set (priv_providers s) \<Longrightarrow>
   set_activeProvider (Some p) s = (Throw UnregisteredProvider, s)"
  by (simp add: set_activeProvider_def UnregisteredProvider_def indexOf_minus_one)

lemma set_activeProvider_registered:
  "p \<in> set (priv_providers s) \<Longrightarrow>
   set_activeProvider (Some p) s =
     (Normal (),
      s\<lparr>activeProviderContextKey := Some (provider_id p),
        priv_activeProvider := Some p,
        priv_onDidChangeProvider := priv_onDidChangeProvider s @
          [\<lparr>payload = Some p, seen_activeProvider = Some p,
            seen_contextKey = Some (provider_id p)\<rparr>]\<rparr>)"
  by (simp add: set_activeProvider_def indexOf_minus_one fire_def Let_def)

lemma unregister_absent:
  "p \<notin> set (priv_providers s) \<Longrightarrow> unregister p s = (Normal (), s)"
  by (simp add: unregister_def indexOf_absent Let_def)

lemma unregister_inactive:
  "p \<in> set (priv_providers s) \<Longrightarrow> priv_activeProvider s \<noteq> Some p \<Longrightarrow>
   unregister p s = (Normal (), s\<lparr>priv_providers := remove1 p (priv_providers s)\<rparr>)"
  using indexOf_absent [of "priv_providers s" p]
  by (simp add: unregister_def Let_def get_activeProvider_def del: One_nat_def)

lemma unregister_active:
  "p \<in> set (priv_providers s) \<Longrightarrow> priv_activeProvider s = Some p \<Longrightarrow>
   unregister p s =
     set_activeProvider (element_at (remove1 p (priv_providers s)) 0)
       (s\<lparr>priv_providers := remove1 p (priv_providers s)\<rparr>)"
  using indexOf_absent [of "priv_providers s" p]
  by (simp add: unregister_def Let_def get_activeProvider_def del: One_nat_def)

text \<open>Registration always returns, and the handle it returns is the release function
  of the registered provider.\<close>

lemma register_returns: "fst (registerWizeProvider p s) = Normal (unregister p)"
  by (simp add: registerWizeProvider_def Let_def toDisposable_def set_activeProvider_registered)

lemma register_state:
  "snd (registerWizeProvider p s) =
     (if priv_providers s = []
      then s\<lparr>activeProviderContextKey := Some (provider_id p),
             priv_activeProvider := Some p,
             priv_providers := [p],
             priv_onDidChangeProvider := priv_onDidChangeProvider s @
               [\<lparr>payload = Some p, seen_activeProvider = Some p,
                 seen_contextKey = Some (provider_id p)\<rparr>]\<rparr>
      else s\<lparr>priv_providers := p # priv_providers s\<rparr>)"
  by (simp add: registerWizeProvider_def Let_def set_activeProvider_registered)

text \<open>Releasing the active provider: the setter receives the new front of the array
  when one is left, and \<^verbatim>\<open>undefined\<close> when none is.\<close>

lemma unregister_active_rest:
  assumes "priv_activeProvider s = Some p" and "p \<in> set (priv_providers s)"
      and "remove1 p (priv_providers s) = q # qs"
  shows "unregister p s =
     (Normal (),
      s\<lparr>activeProviderContextKey := Some (provider_id q),
        priv_activeProvider := Some q,
        priv_providers := q # qs,
        priv_onDidChangeProvider := priv_onDidChangeProvider s @
          [\<lparr>payload = Some q, seen_activeProvider = Some q,
            seen_contextKey = Some (provider_id q)\<rparr>]\<rparr>)"
  using assms by (simp add: unregister_active element_at_0 set_activeProvider_registered)

lemma unregister_active_last:
  assumes "priv_activeProvider s = Some p" and "p \<in> set (priv_providers s)"
      and "remove1 p (priv_providers s) = []"
  shows "unregister p s = (Throw InvalidProvider, s\<lparr>priv_providers := []\<rparr>)"
  using assms by (simp add: unregister_active element_at_0 set_activeProvider_None)

lemma fired_since_same [simp]: "fired_since s s = []"
  by (simp add: fired_since_def)

lemma fired_since_providers [simp]: "fired_since s (s\<lparr>priv_providers := ps\<rparr>) = []"
  by (simp add: fired_since_def)

section \<open>Failures of the setter\<close>

text \<open>
  Claim C3. Assigning \<^verbatim>\<open>activeProvider\<close> throws the invalid-provider error exactly
  when the value is unset, and the not-registered error exactly when the value is a
  provider that is not in the array. Whenever it throws, the state it leaves is the
  state it found (array, active provider, context key, dispatches), so nothing was
  fired.
\<close>

theorem setActive_failures:
  "(fst (set_activeProvider provider s) = Throw InvalidProvider \<longleftrightarrow> provider = None) \<and>
   (fst (set_activeProvider provider s) = Throw UnregisteredProvider \<longleftrightarrow>
      (\<exists>p. provider = Some p \<and> p \<notin> set (get_providers s))) \<and>
   (\<forall>e. fst (set_activeProvider provider s) = Throw e \<longrightarrow>
      snd (set_activeProvider provider s) = s \<and>
      fired_since s (snd (set_activeProvider provider s)) = [])"
proof (cases provider)
  case None
  then show ?thesis
    by (simp add: set_activeProvider_None InvalidProvider_def UnregisteredProvider_def)
next
  case (Some p)
  show ?thesis
  proof (cases "p \<in> set (priv_providers s)")
    case True
    with Some show ?thesis
      by (simp add: set_activeProvider_registered get_providers_def)
  next
    case False
    with Some show ?thesis
      by (simp add: set_activeProvider_unregistered get_providers_def
          InvalidProvider_def UnregisteredProvider_def)
  qed
qed

section \<open>Registration\<close>

text \<open>
  Claim C4. Registering into an empty array makes the registered provider the active
  one and fires one dispatch, carrying that provider. Registering into a non-empty
  array leaves the active provider as it was and fires nothing.
\<close>

theorem register_first_activates:
  "(get_providers s = [] \<longrightarrow>
      get_activeProvider (snd (registerWizeProvider p s)) = Some p \<and>
      map payload (fired_since s (snd (registerWizeProvider p s))) = [Some p]) \<and>
   (get_providers s \<noteq> [] \<longrightarrow>
      get_activeProvider (snd (registerWizeProvider p s)) = get_activeProvider s \<and>
      fired_since s (snd (registerWizeProvider p s)) = [])"
  by (simp add: register_state get_providers_def get_activeProvider_def fired_since_def)

lemma registerAll_providers:
  "fst (registerAll ps s) = Normal () \<and>
   get_providers (snd (registerAll ps s)) = rev ps @ get_providers s"
proof (induction ps arbitrary: s)
  case Nil
  show ?case by simp
next
  case (Cons p ps)
  obtain s' where reg: "registerWizeProvider p s = (Normal (unregister p), s')"
    using register_returns [of p s] by (cases "registerWizeProvider p s") simp
  then have "get_providers s' = p # get_providers s"
    using register_state [of p s] by (simp add: get_providers_def split: if_splits)
  with reg Cons.IH [of s'] show ?case by simp
qed

text \<open>
  Claim C5. Registering a sequence of providers on a new service, one after the other,
  always returns, and \<^verbatim>\<open>providers\<close> then lists them in reverse order of registration,
  the most recent first.
\<close>

theorem registerAll_reverse_order:
  "fst (registerAll ps WizeService_new) = Normal () \<and>
   get_providers (snd (registerAll ps WizeService_new)) = rev ps"
  using registerAll_providers [of ps WizeService_new]
  by (simp add: get_providers_def WizeService_new_def)

section \<open>Successful assignment\<close>

text \<open>
  Claim C6. Every assignment of \<^verbatim>\<open>activeProvider\<close> that returns makes the assigned
  provider the active one, sets the context key to its identifier and fires exactly
  one dispatch, carrying it. Nothing is asked of the provider that was active before:
  assigning the active provider again fires again.
\<close>

theorem setActive_success:
  assumes "fst (set_activeProvider (Some p) s) = Normal ()"
  shows "get_activeProvider (snd (set_activeProvider (Some p) s)) = Some p \<and>
         activeProviderContextKey (snd (set_activeProvider (Some p) s)) = Some (provider_id p) \<and>
         map payload (fired_since s (snd (set_activeProvider (Some p) s))) = [Some p] \<and>
         get_providers (snd (set_activeProvider (Some p) s)) = get_providers s"
proof (cases "p \<in> set (priv_providers s)")
  case True
  then show ?thesis
    by (simp add: set_activeProvider_registered get_activeProvider_def get_providers_def
        fired_since_def)
next
  case False
  with assms show ?thesis by (simp add: set_activeProvider_unregistered)
qed

section \<open>Instances\<close>

text \<open>The setter on a service where only one provider is registered, given another.\<close>

theorem setActive_failures_witness:
  "fst (set_activeProvider (Some (IWizeProvider 2 ''svn''))
         (snd (registerWizeProvider (IWizeProvider 1 ''git'') WizeService_new))) =
     Throw UnregisteredProvider \<and>
   snd (set_activeProvider (Some (IWizeProvider 2 ''svn''))
         (snd (registerWizeProvider (IWizeProvider 1 ''git'') WizeService_new))) =
     snd (registerWizeProvider (IWizeProvider 1 ''git'') WizeService_new)"
proof -
  let ?s = "snd (registerWizeProvider (IWizeProvider 1 ''git'') WizeService_new)"
  have absent: "IWizeProvider 2 ''svn'' \<notin> set (get_providers ?s)"
    by (simp add: register_state get_providers_def WizeService_new_def)
  note inst = setActive_failures [of "Some (IWizeProvider 2 ''svn'')" ?s]
  from inst absent have thrown:
    "fst (set_activeProvider (Some (IWizeProvider 2 ''svn'')) ?s) = Throw UnregisteredProvider"
    by blast
  with inst show ?thesis by blast
qed

text \<open>A first registration on a new service, and a second one after it.\<close>

theorem register_first_activates_witness:
  "get_providers WizeService_new = [] \<and>
   get_activeProvider (snd (registerWizeProvider (IWizeProvider 1 ''git'') WizeService_new)) =
     Some (IWizeProvider 1 ''git'') \<and>
   map payload (fired_since WizeService_new
       (snd (registerWizeProvider (IWizeProvider 1 ''git'') WizeService_new))) =
     [Some (IWizeProvider 1 ''git'')] \<and>
   get_providers (snd (registerWizeProvider (IWizeProvider 1 ''git'') WizeService_new)) \<noteq> [] \<and>
   get_activeProvider (snd (registerWizeProvider (IWizeProvider 2 ''svn'')
       (snd (registerWizeProvider (IWizeProvider 1 ''git'') WizeService_new)))) =
     Some (IWizeProvider 1 ''git'') \<and>
   fired_since (snd (registerWizeProvider (IWizeProvider 1 ''git'') WizeService_new))
     (snd (registerWizeProvider (IWizeProvider 2 ''svn'')
       (snd (registerWizeProvider (IWizeProvider 1 ''git'') WizeService_new)))) = []"
proof -
  let ?g = "IWizeProvider 1 ''git''"
  let ?s = "snd (registerWizeProvider ?g WizeService_new)"
  have e: "get_providers WizeService_new = []"
    by (simp add: get_providers_def WizeService_new_def)
  have ne: "get_providers ?s \<noteq> []"
    by (simp add: register_state get_providers_def WizeService_new_def)
  from e register_first_activates [of WizeService_new ?g]
  have first: "get_activeProvider ?s = Some ?g \<and>
      map payload (fired_since WizeService_new ?s) = [Some ?g]" by blast
  from ne register_first_activates [of ?s "IWizeProvider 2 ''svn''"]
  have second: "get_activeProvider (snd (registerWizeProvider (IWizeProvider 2 ''svn'') ?s)) =
        get_activeProvider ?s \<and>
      fired_since ?s (snd (registerWizeProvider (IWizeProvider 2 ''svn'') ?s)) = []" by blast
  from e ne first second show ?thesis by simp
qed

text \<open>Assigning the provider that is already active.\<close>

theorem setActive_success_witness:
  "fst (set_activeProvider (Some (IWizeProvider 1 ''git''))
         (snd (registerWizeProvider (IWizeProvider 1 ''git'') WizeService_new))) = Normal () \<and>
   get_activeProvider (snd (registerWizeProvider (IWizeProvider 1 ''git'') WizeService_new)) =
     Some (IWizeProvider 1 ''git'') \<and>
   map payload (fired_since (snd (registerWizeProvider (IWizeProvider 1 ''git'') WizeService_new))
      (snd (set_activeProvider (Some (IWizeProvider 1 ''git''))
         (snd (registerWizeProvider (IWizeProvider 1 ''git'') WizeService_new))))) =
     [Some (IWizeProvider 1 ''git'')]"
proof -
  let ?g = "IWizeProvider 1 ''git''"
  let ?s = "snd (registerWizeProvider ?g WizeService_new)"
  have ok: "fst (set_activeProvider (Some ?g) ?s) = Normal ()"
    by (simp add: register_state WizeService_new_def set_activeProvider_registered)
  have active: "get_activeProvider ?s = Some ?g"
    by (simp add: register_state WizeService_new_def get_activeProvider_def)
  from ok active setActive_success [OF ok] show ?thesis by simp
qed

section \<open>Release handles\<close>

lemma remove1_single:
  "count_list xs x \<le> 1 \<Longrightarrow> x \<notin> set (remove1 x xs)"
  by (induction xs) (auto simp: count_list_0_iff split: if_splits)

lemma unregister_removes_single:
  assumes "count_list (priv_providers s) p \<le> 1"
  shows "p \<notin> set (priv_providers (snd (unregister p s)))"
proof (cases "p \<in> set (priv_providers s)")
  case False
  then show ?thesis by (simp add: unregister_absent)
next
  case True
  note mem = this
  show ?thesis
  proof (cases "priv_activeProvider s = Some p")
    case False
    with mem assms show ?thesis by (simp add: unregister_inactive remove1_single)
  next
    case True
    show ?thesis
    proof (cases "remove1 p (priv_providers s)")
      case Nil
      with True mem show ?thesis by (simp add: unregister_active_last)
    next
      case (Cons q qs)
      from assms have "p \<notin> set (remove1 p (priv_providers s))" by (rule remove1_single)
      with Cons True mem show ?thesis by (simp add: unregister_active_rest)
    qed
  qed
qed

lemma dispose_times_absent:
  "p \<notin> set (priv_providers s) \<Longrightarrow> dispose_times n (unregister p) s = (Normal (), s)"
  by (induction n) (simp_all add: dispose_def unregister_absent)

text \<open>A provider that is not in the array stays out of it through every call except
  its own registration.\<close>

lemma set_activeProvider_providers:
  "priv_providers (snd (set_activeProvider provider s)) = priv_providers s"
proof (cases provider)
  case None
  then show ?thesis by (simp add: set_activeProvider_None)
next
  case (Some p)
  then show ?thesis
    by (cases "p \<in> set (priv_providers s)")
       (simp_all add: set_activeProvider_registered set_activeProvider_unregistered)
qed

lemma unregister_providers_absent:
  assumes "p \<notin> set (priv_providers s)"
  shows "p \<notin> set (priv_providers (snd (unregister q s)))"
proof (cases "q \<in> set (priv_providers s)")
  case False
  with assms show ?thesis by (simp add: unregister_absent)
next
  case True
  from assms have rest: "p \<notin> set (remove1 q (priv_providers s))"
    by (rule notin_set_remove1)
  show ?thesis
  proof (cases "priv_activeProvider s = Some q")
    case False
    with True rest show ?thesis by (simp add: unregister_inactive)
  next
    case active: True
    from rest show ?thesis
      by (simp add: unregister_active [OF True active] set_activeProvider_providers)
  qed
qed

lemma perform_keeps_absent:
  assumes "p \<notin> set (priv_providers s)" and "op \<noteq> Register p"
  shows "p \<notin> set (priv_providers (perform op s))"
proof (cases op)
  case (Register q)
  with assms show ?thesis by (auto simp: register_state)
next
  case (SetActive provider)
  with assms(1) show ?thesis by (simp add: set_activeProvider_providers)
next
  case (Release q)
  with assms(1) show ?thesis
    by (simp add: dispose_def toDisposable_def unregister_providers_absent)
qed

lemma fold_perform_keeps_absent:
  "p \<notin> set (priv_providers s) \<Longrightarrow> Register p \<notin> set ops \<Longrightarrow>
   p \<notin> set (priv_providers (fold perform ops s))"
proof (induction ops arbitrary: s)
  case Nil
  then show ?case by simp
next
  case (Cons op ops)
  from Cons.prems have "p \<notin> set (priv_providers (perform op s))"
    by (intro perform_keeps_absent) auto
  with Cons.prems Cons.IH [of "perform op s"] show ?case by simp
qed

text \<open>
  Claim C7, as the code has it. The handle looks the provider up in the array on every
  invocation. When the provider occurs at most once in the array, the first invocation
  of the handle that its registration returned leaves an array without it. From then
  on, after any sequence of calls in which this provider is not registered again, any
  number of further invocations of the handle return and leave the state as it is: same
  array, same active provider, same context key, nothing fired.
\<close>

theorem release_idempotent_single_registration:
  assumes "fst (registerWizeProvider p s0) = Normal h"
      and "count_list (get_providers s) p \<le> 1"
      and "Register p \<notin> set ops"
  shows "dispose_times n h (fold perform ops (snd (dispose h s))) =
           (Normal (), fold perform ops (snd (dispose h s)))"
proof -
  from assms(1) have h: "h = unregister p" by (simp add: register_returns)
  from assms(2) have "p \<notin> set (priv_providers (snd (unregister p s)))"
    by (simp add: get_providers_def unregister_removes_single)
  then have "p \<notin> set (priv_providers (fold perform ops (snd (unregister p s))))"
    using assms(3) by (rule fold_perform_keeps_absent)
  then show ?thesis unfolding h dispose_def by (rule dispose_times_absent)
qed

text \<open>
  Claim C7 as stated fails in two ways. First, when the same provider has been
  registered twice: one provider is registered and active, a second provider is
  registered twice; after a first invocation of the second provider's handle the array
  still holds it once, and the second invocation returns and removes that entry.
  Second, when the provider is registered again after the release: the handle of the
  earlier registration, invoked once more, returns and removes the new registration.
\<close>

theorem release_twice_counterexample:
  "(get_providers (fold perform
      [Register (IWizeProvider 1 ''git''), Register (IWizeProvider 2 ''svn''),
       Register (IWizeProvider 2 ''svn''), Release (IWizeProvider 2 ''svn'')]
      WizeService_new) = [IWizeProvider 2 ''svn'', IWizeProvider 1 ''git''] \<and>
   returns (Release (IWizeProvider 2 ''svn'')) (fold perform
      [Register (IWizeProvider 1 ''git''), Register (IWizeProvider 2 ''svn''),
       Register (IWizeProvider 2 ''svn''), Release (IWizeProvider 2 ''svn'')]
      WizeService_new) \<and>
   get_providers (perform (Release (IWizeProvider 2 ''svn'')) (fold perform
      [Register (IWizeProvider 1 ''git''), Register (IWizeProvider 2 ''svn''),
       Register (IWizeProvider 2 ''svn''), Release (IWizeProvider 2 ''svn'')]
      WizeService_new)) = [IWizeProvider 1 ''git'']) \<and>
   (get_providers (fold perform
      [Register (IWizeProvider 1 ''git''), Register (IWizeProvider 2 ''svn''),
       Release (IWizeProvider 2 ''svn''), Register (IWizeProvider 2 ''svn'')]
      WizeService_new) = [IWizeProvider 2 ''svn'', IWizeProvider 1 ''git''] \<and>
   returns (Release (IWizeProvider 2 ''svn'')) (fold perform
      [Register (IWizeProvider 1 ''git''), Register (IWizeProvider 2 ''svn''),
       Release (IWizeProvider 2 ''svn''), Register (IWizeProvider 2 ''svn'')]
      WizeService_new) \<and>
   get_providers (perform (Release (IWizeProvider 2 ''svn'')) (fold perform
      [Register (IWizeProvider 1 ''git''), Register (IWizeProvider 2 ''svn''),
       Release (IWizeProvider 2 ''svn''), Register (IWizeProvider 2 ''svn'')]
      WizeService_new)) = [IWizeProvider 1 ''git''])"
  by (simp add: register_state dispose_def toDisposable_def WizeService_new_def
      unregister_inactive get_providers_def)

text \<open>
  Claim C8. When the provider is in the array and is not the active one, its handle
  returns, removes one entry of the array (the first occurrence of the provider) and
  changes nothing else: the active provider and the context key stay, nothing is fired.
\<close>

theorem release_inactive_frame:
  assumes "fst (registerWizeProvider p s0) = Normal h"
      and "p \<in> set (get_providers s)"
      and "get_activeProvider s \<noteq> Some p"
  shows "dispose h s = (Normal (), s\<lparr>priv_providers := remove1 p (priv_providers s)\<rparr>) \<and>
         get_providers (snd (dispose h s)) = remove1 p (get_providers s) \<and>
         get_activeProvider (snd (dispose h s)) = get_activeProvider s \<and>
         activeProviderContextKey (snd (dispose h s)) = activeProviderContextKey s \<and>
         fired_since s (snd (dispose h s)) = []"
proof -
  from assms(1) have h: "h = unregister p" by (simp add: register_returns)
  from assms(2,3) have "unregister p s =
      (Normal (), s\<lparr>priv_providers := remove1 p (priv_providers s)\<rparr>)"
    by (simp add: get_providers_def get_activeProvider_def unregister_inactive)
  then show ?thesis
    by (simp add: h dispose_def get_providers_def get_activeProvider_def)
qed

text \<open>Two providers registered once each; the later one, which is not active, is
  released; a third provider is registered and selected and the first one released;
  then the handle of the second is invoked three more times.\<close>

theorem release_idempotent_single_registration_witness:
  "fst (registerWizeProvider (IWizeProvider 2 ''svn'')
         (snd (registerWizeProvider (IWizeProvider 1 ''git'') WizeService_new))) =
     Normal (unregister (IWizeProvider 2 ''svn'')) \<and>
   count_list (get_providers (snd (registerWizeProvider (IWizeProvider 2 ''svn'')
         (snd (registerWizeProvider (IWizeProvider 1 ''git'') WizeService_new)))))
     (IWizeProvider 2 ''svn'') \<le> 1 \<and>
   Register (IWizeProvider 2 ''svn'') \<notin>
     set [Register (IWizeProvider 3 ''hg''), SetActive (Some (IWizeProvider 3 ''hg'')),
          Release (IWizeProvider 1 ''git'')] \<and>
   get_providers (fold perform
       [Register (IWizeProvider 3 ''hg''), SetActive (Some (IWizeProvider 3 ''hg'')),
        Release (IWizeProvider 1 ''git'')]
       (snd (dispose (unregister (IWizeProvider 2 ''svn''))
         (snd (registerWizeProvider (IWizeProvider 2 ''svn'')
           (snd (registerWizeProvider (IWizeProvider 1 ''git'') WizeService_new))))))) =
     [IWizeProvider 3 ''hg''] \<and>
   dispose_times 3 (unregister (IWizeProvider 2 ''svn''))
     (fold perform
       [Register (IWizeProvider 3 ''hg''), SetActive (Some (IWizeProvider 3 ''hg'')),
        Release (IWizeProvider 1 ''git'')]
       (snd (dispose (unregister (IWizeProvider 2 ''svn''))
         (snd (registerWizeProvider (IWizeProvider 2 ''svn'')
           (snd (registerWizeProvider (IWizeProvider 1 ''git'') WizeService_new))))))) =
     (Normal (),
      fold perform
       [Register (IWizeProvider 3 ''hg''), SetActive (Some (IWizeProvider 3 ''hg'')),
        Release (IWizeProvider 1 ''git'')]
       (snd (dispose (unregister (IWizeProvider 2 ''svn''))
         (snd (registerWizeProvider (IWizeProvider 2 ''svn'')
           (snd (registerWizeProvider (IWizeProvider 1 ''git'') WizeService_new)))))))"
proof -
  let ?g = "IWizeProvider 1 ''git''" and ?v = "IWizeProvider 2 ''svn''"
  let ?m = "IWizeProvider 3 ''hg''"
  let ?s = "snd (registerWizeProvider ?v (snd (registerWizeProvider ?g WizeService_new)))"
  let ?ops = "[Register ?m, SetActive (Some ?m), Release ?g]"
  have reg: "fst (registerWizeProvider ?v (snd (registerWizeProvider ?g WizeService_new))) =
      Normal (unregister ?v)"
    by (rule register_returns)
  have once: "count_list (get_providers ?s) ?v \<le> 1"
    by (simp add: register_state get_providers_def WizeService_new_def)
  have other: "Register ?v \<notin> set ?ops" by simp
  have rest: "get_providers (fold perform ?ops (snd (dispose (unregister ?v) ?s))) = [?m]"
    by (simp add: register_state get_providers_def WizeService_new_def dispose_def
        toDisposable_def unregister_inactive unregister_active_rest
        set_activeProvider_registered)
  from reg once other rest
    release_idempotent_single_registration [OF reg once other, of 3]
  show ?thesis by simp
qed

text \<open>The same two registrations, and the release of the provider that is not active.\<close>

theorem release_inactive_frame_witness:
  "fst (registerWizeProvider (IWizeProvider 2 ''svn'')
         (snd (registerWizeProvider (IWizeProvider 1 ''git'') WizeService_new))) =
     Normal (unregister (IWizeProvider 2 ''svn'')) \<and>
   IWizeProvider 2 ''svn'' \<in> set (get_providers (snd (registerWizeProvider (IWizeProvider 2 ''svn'')
         (snd (registerWizeProvider (IWizeProvider 1 ''git'') WizeService_new))))) \<and>
   get_activeProvider (snd (registerWizeProvider (IWizeProvider 2 ''svn'')
         (snd (registerWizeProvider (IWizeProvider 1 ''git'') WizeService_new)))) \<noteq>
     Some (IWizeProvider 2 ''svn'') \<and>
   get_providers (snd (dispose (unregister (IWizeProvider 2 ''svn''))
       (snd (registerWizeProvider (IWizeProvider 2 ''svn'')
         (snd (registerWizeProvider (IWizeProvider 1 ''git'') WizeService_new)))))) =
     [IWizeProvider 1 ''git''] \<and>
   get_activeProvider (snd (dispose (unregister (IWizeProvider 2 ''svn''))
       (snd (registerWizeProvider (IWizeProvider 2 ''svn'')
         (snd (registerWizeProvider (IWizeProvider 1 ''git'') WizeService_new)))))) =
     Some (IWizeProvider 1 ''git'') \<and>
   fired_since (snd (registerWizeProvider (IWizeProvider 2 ''svn'')
         (snd (registerWizeProvider (IWizeProvider 1 ''git'') WizeService_new))))
     (snd (dispose (unregister (IWizeProvider 2 ''svn''))
       (snd (registerWizeProvider (IWizeProvider 2 ''svn'')
         (snd (registerWizeProvider (IWizeProvider 1 ''git'') WizeService_new)))))) = []"
proof -
  let ?g = "IWizeProvider 1 ''git''" and ?v = "IWizeProvider 2 ''svn''"
  let ?s = "snd (registerWizeProvider ?v (snd (registerWizeProvider ?g WizeService_new)))"
  have reg: "fst (registerWizeProvider ?v (snd (registerWizeProvider ?g WizeService_new))) =
      Normal (unregister ?v)"
    by (rule register_returns)
  have mem: "?v \<in> set (get_providers ?s)"
    by (simp add: register_state get_providers_def WizeService_new_def)
  have active: "get_activeProvider ?s = Some ?g"
    by (simp add: register_state get_activeProvider_def WizeService_new_def)
  then have inactive: "get_activeProvider ?s \<noteq> Some ?v" by simp
  have providers: "get_providers ?s = [?v, ?g]"
    by (simp add: register_state get_providers_def WizeService_new_def)
  from reg mem inactive active providers release_inactive_frame [OF reg mem inactive]
  show ?thesis by (simp add: get_providers_def get_activeProvider_def)
qed

section \<open>Releasing the active provider\<close>

text \<open>When other entries remain after the removal, the front of the remaining array
  becomes the active provider through the setter: one dispatch, carrying it.\<close>

lemma release_active_promotes_front:
  assumes "fst (registerWizeProvider p s0) = Normal h"
      and "get_activeProvider s = Some p"
      and "p \<in> set (get_providers s)"
      and "remove1 p (get_providers s) = q # qs"
  shows "fst (dispose h s) = Normal () \<and>
         get_providers (snd (dispose h s)) = q # qs \<and>
         get_activeProvider (snd (dispose h s)) = Some q \<and>
         activeProviderContextKey (snd (dispose h s)) = Some (provider_id q) \<and>
         map payload (fired_since s (snd (dispose h s))) = [Some q]"
proof -
  from assms(1) have h: "h = unregister p" by (simp add: register_returns)
  from assms(2-4) show ?thesis
    by (simp add: h dispose_def get_providers_def get_activeProvider_def
        unregister_active_rest fired_since_def)
qed

lemma release_active_last_throws:
  assumes "fst (registerWizeProvider p s0) = Normal h"
      and "get_activeProvider s = Some p"
      and "p \<in> set (get_providers s)"
      and "remove1 p (get_providers s) = []"
  shows "dispose h s = (Throw InvalidProvider, s\<lparr>priv_providers := []\<rparr>)"
proof -
  from assms(1) have h: "h = unregister p" by (simp add: register_returns)
  from assms(2-4) show ?thesis
    by (simp add: h dispose_def get_providers_def get_activeProvider_def
        unregister_active_last)
qed

text \<open>
  Claim C1 asks that releasing the active provider removes it and makes the front of
  the remaining array active, or leaves no provider active when the array became
  empty, with one dispatch carrying the new value in both cases. The first half is
  \<open>release_active_promotes_front\<close>. For the second half the code assigns
  \<^verbatim>\<open>this._providers[0]\<close>, which is \<^verbatim>\<open>undefined\<close>, and the setter refuses it: on a
  new service, after registering one provider, its handle throws the invalid-provider
  error, the array is empty, the removed provider is still the active one with its
  identifier in the context key, and the only dispatch is the one of the registration.
\<close>

theorem release_of_last_active_provider_throws:
  "fst (registerWizeProvider (IWizeProvider 1 ''git'') WizeService_new) =
     Normal (unregister (IWizeProvider 1 ''git'')) \<and>
   dispose (unregister (IWizeProvider 1 ''git''))
       (snd (registerWizeProvider (IWizeProvider 1 ''git'') WizeService_new)) =
     (Throw InvalidProvider,
      \<lparr>activeProviderContextKey = Some ''git'',
       priv_activeProvider = Some (IWizeProvider 1 ''git''),
       priv_providers = [],
       priv_onDidChangeProvider =
         [\<lparr>payload = Some (IWizeProvider 1 ''git''),
           seen_activeProvider = Some (IWizeProvider 1 ''git''),
           seen_contextKey = Some ''git''\<rparr>]\<rparr>)"
  by (simp add: register_returns register_state dispose_def WizeService_new_def
      unregister_active_last)

section \<open>The invariants of the registry state\<close>

text \<open>A new service satisfies the invariants, and every call that returns keeps them.\<close>

lemma invariant_new: "registry_invariant WizeService_new"
  by (simp add: registry_invariant_def WizeService_new_def get_activeProvider_def
      get_providers_def)

lemma invariant_unregister:
  assumes inv: "registry_invariant s" and ret: "fst (unregister p s) = Normal ()"
  shows "registry_invariant (snd (unregister p s))"
proof (cases "p \<in> set (priv_providers s)")
  case False
  with inv show ?thesis by (simp add: unregister_absent)
next
  case mem: True
  show ?thesis
  proof (cases "priv_activeProvider s = Some p")
    case False
    have "a \<in> set (remove1 p (priv_providers s))"
      if "priv_activeProvider s = Some a" for a
    proof -
      from that False have "a \<noteq> p" by auto
      moreover from inv that have "a \<in> set (priv_providers s)"
        by (simp add: registry_invariant_def get_activeProvider_def get_providers_def)
      ultimately show ?thesis by simp
    qed
    then have "registry_invariant (s\<lparr>priv_providers := remove1 p (priv_providers s)\<rparr>)"
      by (cases "priv_activeProvider s")
         (auto simp: registry_invariant_def get_activeProvider_def get_providers_def)
    with mem False show ?thesis by (simp add: unregister_inactive)
  next
    case active: True
    show ?thesis
    proof (cases "remove1 p (priv_providers s)")
      case Nil
      with mem active ret show ?thesis by (simp add: unregister_active_last)
    next
      case (Cons q qs)
      with mem active show ?thesis
        by (simp add: unregister_active_rest registry_invariant_def
            get_activeProvider_def get_providers_def)
    qed
  qed
qed

lemma invariant_preserved_when_returning:
  assumes "registry_invariant s" and "returns op s"
  shows "registry_invariant (perform op s)"
proof (cases op)
  case (Register p)
  with assms(1) show ?thesis
    by (auto simp: register_state registry_invariant_def get_activeProvider_def
        get_providers_def split: option.splits)
next
  case (SetActive provider)
  show ?thesis
  proof (cases provider)
    case None
    with SetActive assms show ?thesis by (simp add: set_activeProvider_None)
  next
    case (Some p)
    with SetActive assms show ?thesis
      by (cases "p \<in> set (priv_providers s)")
         (auto simp: set_activeProvider_registered set_activeProvider_unregistered
            registry_invariant_def get_activeProvider_def get_providers_def)
  qed
next
  case (Release p)
  with assms show ?thesis
    by (simp add: dispose_def toDisposable_def invariant_unregister)
qed

text \<open>
  Claim C2 asks that after every operation the active provider, if set, is in the
  array, and that an empty array has no active provider. On the code: registering one
  provider on a new service returns; invoking its handle then leaves an empty array
  with that provider still active, so both invariants fail; a second invocation of the
  handle returns and leaves the same state.
\<close>

theorem invariant_fails_after_release_of_last_provider:
  "returns (Register (IWizeProvider 1 ''git'')) WizeService_new \<and>
   get_providers (fold perform
      [Register (IWizeProvider 1 ''git''), Release (IWizeProvider 1 ''git'')]
      WizeService_new) = [] \<and>
   get_activeProvider (fold perform
      [Register (IWizeProvider 1 ''git''), Release (IWizeProvider 1 ''git'')]
      WizeService_new) = Some (IWizeProvider 1 ''git'') \<and>
   \<not> registry_invariant (fold perform
      [Register (IWizeProvider 1 ''git''), Release (IWizeProvider 1 ''git'')]
      WizeService_new) \<and>
   returns (Release (IWizeProvider 1 ''git'')) (fold perform
      [Register (IWizeProvider 1 ''git''), Release (IWizeProvider 1 ''git'')]
      WizeService_new) \<and>
   \<not> registry_invariant (fold perform
      [Register (IWizeProvider 1 ''git''), Release (IWizeProvider 1 ''git''),
       Release (IWizeProvider 1 ''git'')]
      WizeService_new)"
  by (simp add: register_returns register_state dispose_def toDisposable_def
      WizeService_new_def unregister_active_last unregister_absent
      registry_invariant_def get_providers_def get_activeProvider_def)

section \<open>What a listener finds during a dispatch\<close>

lemma fired_dispatch_consistent:
  "dispatch_consistent
     \<lparr>payload = Some q, seen_activeProvider = Some q,
      seen_contextKey = Some (provider_id q)\<rparr>"
  by (simp add: dispatch_consistent_def)

lemma set_activeProvider_consistent:
  assumes "list_all dispatch_consistent (priv_onDidChangeProvider s)"
  shows "list_all dispatch_consistent
           (priv_onDidChangeProvider (snd (set_activeProvider provider s)))"
proof (cases provider)
  case None
  with assms show ?thesis by (simp add: set_activeProvider_None)
next
  case (Some p)
  with assms show ?thesis
    by (cases "p \<in> set (priv_providers s)")
       (simp_all add: set_activeProvider_registered set_activeProvider_unregistered
          fired_dispatch_consistent)
qed

lemma unregister_consistent:
  assumes "list_all dispatch_consistent (priv_onDidChangeProvider s)"
  shows "list_all dispatch_consistent (priv_onDidChangeProvider (snd (unregister p s)))"
proof (cases "p \<in> set (priv_providers s)")
  case False
  with assms show ?thesis by (simp add: unregister_absent)
next
  case True
  show ?thesis
  proof (cases "priv_activeProvider s = Some p")
    case False
    with True assms show ?thesis by (simp add: unregister_inactive)
  next
    case active: True
    from assms have "list_all dispatch_consistent
        (priv_onDidChangeProvider (s\<lparr>priv_providers := remove1 p (priv_providers s)\<rparr>))"
      by simp
    then show ?thesis
      unfolding unregister_active [OF True active] by (rule set_activeProvider_consistent)
  qed
qed

lemma perform_consistent:
  assumes "list_all dispatch_consistent (priv_onDidChangeProvider s)"
  shows "list_all dispatch_consistent (priv_onDidChangeProvider (perform op s))"
proof (cases op)
  case (Register p)
  with assms show ?thesis by (simp add: register_state fired_dispatch_consistent)
next
  case (SetActive provider)
  with assms show ?thesis by (simp add: set_activeProvider_consistent)
next
  case (Release p)
  with assms show ?thesis by (simp add: dispose_def toDisposable_def unregister_consistent)
qed

lemma fold_perform_consistent:
  "list_all dispatch_consistent (priv_onDidChangeProvider s) \<Longrightarrow>
   list_all dispatch_consistent (priv_onDidChangeProvider (fold perform ops s))"
  by (induction ops arbitrary: s) (simp_all add: perform_consistent)

text \<open>Whatever sequence of registrations, assignments and releases a new service has
  gone through, the field and the context key had been written when \<^verbatim>\<open>fire\<close> was
  called.\<close>

lemma every_fire_after_update:
  "list_all dispatch_consistent
     (priv_onDidChangeProvider (fold perform ops WizeService_new))"
  by (rule fold_perform_consistent) (simp add: WizeService_new_def)

subsection \<open>Delivery to subscribers\<close>

text \<open>A call fires at most once, as its last effect, and then shows the fired value.\<close>

lemma perform_fired:
  "fired_since s (perform op s) = [] \<or>
   (\<exists>d. fired_since s (perform op s) = [d] \<and> consistent_with (perform op s) (payload d))"
proof (cases op)
  case (Register p)
  then show ?thesis
    by (simp add: register_state fired_since_def consistent_with_def get_activeProvider_def)
next
  case (SetActive provider)
  show ?thesis
  proof (cases provider)
    case None
    with SetActive show ?thesis by (simp add: set_activeProvider_None)
  next
    case (Some p)
    with SetActive show ?thesis
      by (cases "p \<in> set (priv_providers s)")
         (simp_all add: set_activeProvider_registered set_activeProvider_unregistered
            fired_since_def consistent_with_def get_activeProvider_def)
  qed
next
  case (Release p)
  show ?thesis
  proof (cases "p \<in> set (priv_providers s)")
    case False
    with Release show ?thesis by (simp add: dispose_def toDisposable_def unregister_absent)
  next
    case mem: True
    show ?thesis
    proof (cases "priv_activeProvider s = Some p")
      case False
      with Release mem show ?thesis
        by (simp add: dispose_def toDisposable_def unregister_inactive)
    next
      case active: True
      show ?thesis
      proof (cases "remove1 p (priv_providers s)")
        case Nil
        with Release mem active show ?thesis
          by (simp add: dispose_def toDisposable_def unregister_active_last)
      next
        case (Cons q qs)
        with Release mem active show ?thesis
          by (simp add: dispose_def toDisposable_def unregister_active_rest
              fired_since_def consistent_with_def get_activeProvider_def)
      qed
    qed
  qed
qed










text \<open>When every subscriber is silent, fuel for the calls and their callbacks is enough
  for the run to end.\<close>

lemma length_notifications: "length (notifications n ds) = n * length ds"
  by (induction ds) (simp_all add: notifications_def)

lemma cost_positive: "0 < cost n t"
  by (cases t) simp_all

lemma run_returns_when_silent:
  assumes "\<forall>i. silent ls i"
  shows "sum_list (map (cost (length ls)) ts) \<le> fuel \<Longrightarrow> \<exists>c'. run fuel ls ts c = Some c'"
proof (induction fuel arbitrary: ts c)
  case 0
  show ?case
  proof (cases ts)
    case Nil
    then show ?thesis by simp
  next
    case (Cons t rest)
    with 0 cost_positive [of "length ls" t] show ?thesis by simp
  qed
next
  case (Suc fuel)
  show ?case
  proof (cases ts)
    case Nil
    then show ?thesis by simp
  next
    case (Cons t rest)
    obtain s obs where c: "c = (s, obs)" by (cases c)
    show ?thesis
    proof (cases t)
      case (Call op)
      from perform_fired [of s op]
      have "length (fired_since s (perform op s)) \<le> 1" by auto
      then have "length (notifications (length ls) (fired_since s (perform op s))) \<le> length ls"
        by (simp add: length_notifications)
      moreover have "sum_list (map (cost (length ls)) ns) = length ns"
        if "\<forall>t\<in>set ns. \<exists>i v. t = Notify i v" for ns
        using that by (induction ns) auto
      moreover have "\<forall>t\<in>set (notifications (length ls) (fired_since s (perform op s))).
          \<exists>i v. t = Notify i v"
        by (auto simp: notifications_def)
      ultimately have "sum_list (map (cost (length ls))
          (notifications (length ls) (fired_since s (perform op s)) @ rest)) \<le> fuel"
        using Suc.prems Cons Call by simp
      from Suc.IH [OF this] Cons Call c show ?thesis by simp
    next
      case (Notify i v)
      from assms have "calls_of ls i v s = []" by (simp add: silent_def)
      moreover from Suc.prems Cons Notify
      have "sum_list (map (cost (length ls)) rest) \<le> fuel" by simp
      ultimately show ?thesis using Suc.IH [of rest] Cons Notify c by simp
    qed
  qed
qed




section \<open>The preview toggle: the getter gives the value read at load time\<close>

text \<open>
  Claim C10. The getter of \<^verbatim>\<open>enabled\<close> gives what the storage held for
  \<^verbatim>\<open>enablePreviewWize\<close> when the class was loaded. The setter writes the storage
  entry and leaves the static field alone, so after any sequence of assignments the
  getter still gives the value of load time.
\<close>

theorem WizePreview_enabled_is_startup_value:
  "get_enabled (WizePreview_load storage) =
     (getItem storage ''enablePreviewWize'' = Some ''true'') \<and>
   get_enabled (set_enabled b w) = get_enabled w \<and>
   localStorage (set_enabled b w) =
     setItem (localStorage w) ''enablePreviewWize'' (if b then ''true'' else ''false'') \<and>
   get_enabled (fold set_enabled bs (WizePreview_load storage)) =
     (getItem storage ''enablePreviewWize'' = Some ''true'')"
proof -
  have keep: "get_enabled (fold set_enabled bs w) = get_enabled w" for w
    by (induction bs arbitrary: w) (simp_all add: get_enabled_def set_enabled_def)
  show ?thesis
    by (simp add: keep) (simp add: get_enabled_def set_enabled_def WizePreview_load_def)
qed

text \<open>The storage says \<^verbatim>\<open>false\<close> at load time and \<^verbatim>\<open>true\<close> is assigned: the entry
  changes, the getter does not.\<close>

theorem WizePreview_enabled_is_startup_value_witness:
  "get_enabled (fold set_enabled [True]
      (WizePreview_load (Map.empty(''enablePreviewWize'' \<mapsto> ''false'')))) = False \<and>
   getItem (localStorage (set_enabled True
      (WizePreview_load (Map.empty(''enablePreviewWize'' \<mapsto> ''false'')))))
     ''enablePreviewWize'' = Some ''true''"
  using WizePreview_enabled_is_startup_value
    [of "Map.empty(''enablePreviewWize'' \<mapsto> ''false'')" True
        "WizePreview_load (Map.empty(''enablePreviewWize'' \<mapsto> ''false''))" "[True]"]
  by (simp add: getItem_def setItem_def)

end
